theory Spec2Isabelle
  imports Complex_Main
begin

section \<open>JavaScript strings\<close>

text \<open>
  A JavaScript string is a sequence of UTF-16 code units, here natural numbers.
  \<open>str\<close> turns an ASCII literal into one. Of the built-in methods the application
  calls, \<open>trim\<close> is modelled in full; \<open>toLowerCase\<close> and \<open>normalize('NFD')\<close> are
  modelled on Basic Latin and the Latin-1 Supplement (code units up to \<open>U+00FF\<close>) and
  leave every other code unit as it is.
\<close>

type_synonym jsstring = "nat list"

definition str :: "string \<Rightarrow> jsstring" where
  "str s = map of_char s"

text \<open>\<open>String.prototype.trim\<close>: strips WhiteSpace and LineTerminator code units.\<close>

definition is_space :: "nat \<Rightarrow> bool" where
  "is_space c =
    (c \<in> set [0x09, 0x0A, 0x0B, 0x0C, 0x0D, 0x20, 0xA0, 0x1680, 0x2028, 0x2029,
               0x202F, 0x205F, 0x3000, 0xFEFF]
     \<or> (0x2000 \<le> c \<and> c \<le> 0x200A))"

definition trim :: "jsstring \<Rightarrow> jsstring" where
  "trim s = rev (dropWhile is_space (rev (dropWhile is_space s)))"

definition lower_unit :: "nat \<Rightarrow> nat" where
  "lower_unit c =
    (if 0x41 \<le> c \<and> c \<le> 0x5A then c + 0x20
     else if 0xC0 \<le> c \<and> c \<le> 0xDE \<and> c \<noteq> 0xD7 then c + 0x20
     else c)"

definition toLowerCase :: "jsstring \<Rightarrow> jsstring" where
  "toLowerCase s = map lower_unit s"

text \<open>
  Canonical decompositions of the Latin-1 letters: code unit, base letter, combining
  mark. The lower-case letters follow the upper-case ones at distance \<open>0x20\<close>;
  \<open>U+00FF\<close> has no upper-case partner in Latin-1.
\<close>

definition nfd_upper :: "(nat \<times> nat \<times> nat) list" where
  "nfd_upper =
    [(0xC0, 0x41, 0x300), (0xC1, 0x41, 0x301), (0xC2, 0x41, 0x302), (0xC3, 0x41, 0x303),
     (0xC4, 0x41, 0x308), (0xC5, 0x41, 0x30A), (0xC7, 0x43, 0x327),
     (0xC8, 0x45, 0x300), (0xC9, 0x45, 0x301), (0xCA, 0x45, 0x302), (0xCB, 0x45, 0x308),
     (0xCC, 0x49, 0x300), (0xCD, 0x49, 0x301), (0xCE, 0x49, 0x302), (0xCF, 0x49, 0x308),
     (0xD1, 0x4E, 0x303),
     (0xD2, 0x4F, 0x300), (0xD3, 0x4F, 0x301), (0xD4, 0x4F, 0x302), (0xD5, 0x4F, 0x303),
     (0xD6, 0x4F, 0x308),
     (0xD9, 0x55, 0x300), (0xDA, 0x55, 0x301), (0xDB, 0x55, 0x302), (0xDC, 0x55, 0x308),
     (0xDD, 0x59, 0x301)]"

definition nfd_table :: "(nat \<times> nat \<times> nat) list" where
  "nfd_table =
    nfd_upper @ map (\<lambda>(c, b, m). (c + 0x20, b + 0x20, m)) nfd_upper @ [(0xFF, 0x79, 0x308)]"

definition nfd_unit :: "nat \<Rightarrow> jsstring" where
  "nfd_unit c = (case map_of nfd_table c of None \<Rightarrow> [c] | Some (b, m) \<Rightarrow> [b, m])"

definition normalizeNFD :: "jsstring \<Rightarrow> jsstring" where
  "normalizeNFD s = concat (map nfd_unit s)"

section \<open>Regular expressions\<close>

text \<open>
  The constructs the intent patterns use: literals, \<open>\b\<close>, \<open>.*\<close>, alternation,
  \<open>(...)?\<close> and sequencing, without flags. \<open>ends r s i\<close> lists the positions at
  which a match of \<open>r\<close> that starts at position \<open>i\<close> of \<open>s\<close> can end;
  \<open>RegExp.prototype.test\<close> asks whether a match starts anywhere.
\<close>

datatype regex =
    Lit jsstring
  | WordBoundary
  | DotStar
  | Alt regex regex
  | Opt regex
  | Seq regex regex
  | Eps

definition is_word :: "nat \<Rightarrow> bool" where
  "is_word c =
    ((0x61 \<le> c \<and> c \<le> 0x7A) \<or> (0x41 \<le> c \<and> c \<le> 0x5A) \<or> (0x30 \<le> c \<and> c \<le> 0x39)
     \<or> c = 0x5F)"

definition word_at :: "jsstring \<Rightarrow> int \<Rightarrow> bool" where
  "word_at s i = (if 0 \<le> i \<and> i < int (length s) then is_word (s ! nat i) else False)"

definition is_line_terminator :: "nat \<Rightarrow> bool" where
  "is_line_terminator c = (c \<in> set [0x0A, 0x0D, 0x2028, 0x2029])"

fun ends :: "regex \<Rightarrow> jsstring \<Rightarrow> nat \<Rightarrow> nat list" where
  "ends (Lit w) s i = (if take (length w) (drop i s) = w then [i + length w] else [])"
| "ends WordBoundary s i = (if word_at s (int i - 1) \<noteq> word_at s (int i) then [i] else [])"
| "ends DotStar s i =
    rev [i ..< Suc (i + length (takeWhile (\<lambda>c. \<not> is_line_terminator c) (drop i s)))]"
| "ends (Alt r1 r2) s i = ends r1 s i @ ends r2 s i"
| "ends (Opt r) s i = ends r s i @ [i]"
| "ends (Seq r1 r2) s i = concat (map (ends r2 s) (ends r1 s i))"
| "ends Eps s i = [i]"

definition test :: "regex \<Rightarrow> jsstring \<Rightarrow> bool" where
  "test r s = list_ex (\<lambda>i. ends r s i \<noteq> []) [0 ..< Suc (length s)]"

definition cat :: "regex list \<Rightarrow> regex" where
  "cat rs = foldr Seq rs Eps"

section \<open>Voice command interpreter\<close>

definition strip_marks :: "jsstring \<Rightarrow> jsstring" where
  "strip_marks s = filter (\<lambda>c. \<not> (0x300 \<le> c \<and> c \<le> 0x36F)) s"

definition normalize :: "jsstring \<Rightarrow> jsstring" where
  "normalize s = trim (strip_marks (normalizeNFD (toLowerCase s)))"

definition patterns :: "regex list" where
  "patterns =
    [cat [WordBoundary, Lit (str ''program''), Alt (Lit (str ''ar'')) (Lit (str ''a'')),
          WordBoundary, DotStar, WordBoundary,
          Alt (Lit (str ''publicacion'')) (Alt (Lit (str ''publicacion'')) (Lit (str ''post''))),
          WordBoundary],
     cat [WordBoundary, Lit (str ''programar publicacion''), WordBoundary],
     cat [WordBoundary, Lit (str ''programar post''), WordBoundary],
     cat [WordBoundary, Lit (str ''schedule ''), Opt (Lit (str ''a '')), Lit (str ''post''),
          WordBoundary],
     cat [WordBoundary, Lit (str ''crear ''), Opt (Lit (str ''una '')),
          Lit (str ''programacion''), WordBoundary]]"

definition isScheduleIntent :: "jsstring \<Rightarrow> bool" where
  "isScheduleIntent s = (let n = normalize s in list_ex (\<lambda>re. test re n) patterns)"

section \<open>Application shell: event log and scheduled posts\<close>

text \<open>
  \<open>String(n)\<close> for an integer \<open>n\<close>: its decimal digits, with a minus sign when
  negative. (JavaScript switches to exponent notation from \<open>10^21\<close> on; a clock
  reading is below \<open>8.64 * 10^15\<close> in absolute value.)
\<close>

function decimal :: "nat \<Rightarrow> jsstring" where
  "decimal n = (if n < 10 then [0x30 + n] else decimal (n div 10) @ [0x30 + n mod 10])"
  by pat_completeness auto
termination
  by (relation "measure (\<lambda>n. n)") auto

definition js_String :: "int \<Rightarrow> jsstring" where
  "js_String i = (if i < 0 then 0x2D # decimal (nat (- i)) else decimal (nat i))"

text \<open>
  The two versions of \<open>App\<close> share the event log, the feedback banner and the post
  list. \<open>Date.now()\<close> is an input of the program: \<open>now k\<close> is the reading the
  \<open>k\<close>-th call returns, and the state counts the calls made so far in
  \<open>nowCalls\<close>. The field \<open>id\<close> of a post is written \<open>id'\<close>, and the
  component state \<open>description\<close> is written \<open>description'\<close> to keep it apart
  from the post's field. \<open>t0\<close> is the reading taken when the page is mounted
  (call number 0). \<open>scheduledAt\<close> is \<open>None\<close> when
  \<open>new Date(...).getTime()\<close> is \<open>NaN\<close>. Event \<open>meta\<close> is left out.
\<close>

record LogEvent =
  type :: string
  t :: int

record ScheduledPost =
  id' :: jsstring
  createdAt :: int
  title :: jsstring

record ScheduledPost2 = ScheduledPost +
  description :: jsstring
  scheduledAt :: "int option"

record 'p App =
  t0 :: int
  events :: "LogEvent list"
  nowCalls :: nat
  feedback :: jsstring
  scheduledPosts :: "'p list"

record VoiceApp = "ScheduledPost App" +
  voiceText :: jsstring

record SchedulerApp = "ScheduledPost2 App" +
  manualTitle :: jsstring
  description' :: jsstring
  scheduledAtLocal :: jsstring

definition log :: "(nat \<Rightarrow> int) \<Rightarrow> string \<Rightarrow> ('p, 'a) App_scheme \<Rightarrow> ('p, 'a) App_scheme" where
  "log now ty s =
    s\<lparr>events := events s @ [\<lparr>type = ty, t = now (nowCalls s)\<rparr>], nowCalls := Suc (nowCalls s)\<rparr>"

definition handleFeedback ::
  "(nat \<Rightarrow> int) \<Rightarrow> jsstring \<Rightarrow> string \<Rightarrow> ('p, 'a) App_scheme \<Rightarrow> ('p, 'a) App_scheme" where
  "handleFeedback now msg ty s = log now ty (s\<lparr>feedback := msg\<rparr>)"

definition default_title :: jsstring where
  "default_title = str ''Publicaci'' @ [0xF3] @ str ''n programada''"

text \<open>The first version of \<open>App\<close>: the simulated voice command.\<close>

definition onVoiceSubmit :: "(nat \<Rightarrow> int) \<Rightarrow> VoiceApp \<Rightarrow> VoiceApp" where
  "onVoiceSubmit now s0 =
    (let s = log now ''voice_submit'' s0;
         ok = isScheduleIntent (voiceText s)
     in if ok then
          let id = js_String (now (nowCalls s));
              post = \<lparr>id' = id, createdAt = now (Suc (nowCalls s)), title = default_title\<rparr>;
              s1 = s\<lparr>nowCalls := Suc (Suc (nowCalls s)), scheduledPosts := post # scheduledPosts s\<rparr>;
              s2 = log now ''post_scheduled'' s1
          in handleFeedback now default_title ''post_scheduled'' s2
        else handleFeedback now (str ''Comando no reconocido'') ''voice_match_false'' s)"

text \<open>
  The second version of \<open>App\<close>: the scheduling form. \<open>getTime\<close> stands for
  \<open>new Date(scheduledAtLocal).getTime()\<close>, the browser's reading of the local
  date-time text.
\<close>

definition saveScheduledPost ::
  "(nat \<Rightarrow> int) \<Rightarrow> (jsstring \<Rightarrow> int option) \<Rightarrow> SchedulerApp \<Rightarrow> SchedulerApp" where
  "saveScheduledPost now getTime s =
    (let id = js_String (now (nowCalls s));
         title = (if trim (manualTitle s) = [] then default_title else trim (manualTitle s));
         desc = trim (description' s);
         scheduledAtMs = getTime (scheduledAtLocal s);
         post = \<lparr>id' = id, createdAt = now (Suc (nowCalls s)), title = title,
                 description = desc, scheduledAt = scheduledAtMs\<rparr>;
         s1 = s\<lparr>nowCalls := Suc (Suc (nowCalls s)), scheduledPosts := post # scheduledPosts s\<rparr>;
         s2 = log now ''post_scheduled'' s1
     in handleFeedback now (str ''Publicaci'' @ [0xF3] @ str ''n guardada y programada'')
          ''post_scheduled'' s2)"

text \<open>
  A page session of the scheduling form: the user edits the three inputs and presses
  save, any number of times.
\<close>

datatype form_action =
    SetTitle jsstring
  | SetDescription jsstring
  | SetScheduledAt jsstring
  | Save

fun form_step ::
  "(nat \<Rightarrow> int) \<Rightarrow> (jsstring \<Rightarrow> int option) \<Rightarrow> form_action \<Rightarrow> SchedulerApp \<Rightarrow> SchedulerApp" where
  "form_step now getTime (SetTitle v) s = s\<lparr>manualTitle := v\<rparr>"
| "form_step now getTime (SetDescription v) s = s\<lparr>description' := v\<rparr>"
| "form_step now getTime (SetScheduledAt v) s = s\<lparr>scheduledAtLocal := v\<rparr>"
| "form_step now getTime Save s = saveScheduledPost now getTime s"

definition form_session ::
  "(nat \<Rightarrow> int) \<Rightarrow> (jsstring \<Rightarrow> int option) \<Rightarrow> form_action list \<Rightarrow> SchedulerApp \<Rightarrow> SchedulerApp" where
  "form_session now getTime as s = fold (form_step now getTime) as s"

text \<open>A page session of the voice input: the user types and submits.\<close>

datatype voice_action =
    SetVoiceText jsstring
  | Submit

fun voice_step :: "(nat \<Rightarrow> int) \<Rightarrow> voice_action \<Rightarrow> VoiceApp \<Rightarrow> VoiceApp" where
  "voice_step now (SetVoiceText v) s = s\<lparr>voiceText := v\<rparr>"
| "voice_step now Submit s = onVoiceSubmit now s"

definition voice_session :: "(nat \<Rightarrow> int) \<Rightarrow> voice_action list \<Rightarrow> VoiceApp \<Rightarrow> VoiceApp" where
  "voice_session now as s = fold (voice_step now) as s"

text \<open>
  The page as first rendered. \<open>local0\<close> is the initial text of the date-time input,
  computed from the wall clock at mount.
\<close>

definition init_scheduler :: "(nat \<Rightarrow> int) \<Rightarrow> jsstring \<Rightarrow> SchedulerApp" where
  "init_scheduler now local0 =
    \<lparr>t0 = now 0, events = [], nowCalls = 1, feedback = str ''Bienvenido a PromoStudio'',
     scheduledPosts = [], manualTitle = default_title, description' = [],
     scheduledAtLocal = local0\<rparr>"

definition init_voice :: "(nat \<Rightarrow> int) \<Rightarrow> VoiceApp" where
  "init_voice now =
    \<lparr>t0 = now 0, events = [], nowCalls = 1, feedback = str ''Bienvenido a PromoStudio'',
     scheduledPosts = [], voiceText = []\<rparr>"

text \<open>
  The clock readings that become post ids in a session, most recent first, given the
  number \<open>n\<close> of \<open>Date.now()\<close> calls made before it: \<open>saveScheduledPost\<close>
  makes four calls and uses the first; \<open>onVoiceSubmit\<close> makes five calls and uses the
  second when the text matches, and two calls otherwise.
\<close>

fun form_id_readings :: "(nat \<Rightarrow> int) \<Rightarrow> nat \<Rightarrow> form_action list \<Rightarrow> int list" where
  "form_id_readings now n [] = []"
| "form_id_readings now n (Save # as) = form_id_readings now (n + 4) as @ [now n]"
| "form_id_readings now n (a # as) = form_id_readings now n as"

fun voice_id_readings :: "(nat \<Rightarrow> int) \<Rightarrow> nat \<Rightarrow> jsstring \<Rightarrow> voice_action list \<Rightarrow> int list" where
  "voice_id_readings now n txt [] = []"
| "voice_id_readings now n txt (SetVoiceText v # as) = voice_id_readings now n v as"
| "voice_id_readings now n txt (Submit # as) =
    (if isScheduleIntent txt then voice_id_readings now (n + 5) txt as @ [now (Suc n)]
     else voice_id_readings now (n + 2) txt as)"

text \<open>The value of a digit string, to read \<open>decimal\<close> back.\<close>

definition undecimal :: "jsstring \<Rightarrow> nat" where
  "undecimal ds = foldl (\<lambda>a d. 10 * a + (d - 0x30)) 0 ds"

text \<open>Concrete inputs used to exercise the theorems below.\<close>

definition ticking :: "nat \<Rightarrow> int" where
  "ticking k = 1700000000000 + int k"

definition frozen :: "nat \<Rightarrow> int" where
  "frozen k = 1700000000000"

definition getTime0 :: "jsstring \<Rightarrow> int option" where
  "getTime0 s = (if s = str ''2030-01-01T10:00'' then Some 1893492000000 else None)"

definition two_saves :: "form_action list" where
  "two_saves = [SetTitle (str ''a''), Save, SetTitle (str ''b''), Save]"

definition programar_publicacion :: jsstring where
  "programar_publicacion = str ''programar publicaci'' @ [0xF3] @ str ''n''"

definition voice_with :: "jsstring \<Rightarrow> VoiceApp" where
  "voice_with v = (init_voice ticking)\<lparr>voiceText := v\<rparr>"

definition padded_form :: SchedulerApp where
  "padded_form =
    (init_scheduler ticking (str ''2030-01-01T10:00''))
      \<lparr>manualTitle := str ''  '', description' := str '' x''\<rparr>"

section \<open>Photo editor\<close>

text \<open>
  Numbers of the editor (drag offset, zoom, rotation, canvas coordinates) are reals.
  A \<open>CropArea\<close> is in source-image pixels; the cropping widget reports whole pixels,
  so its fields are integers. The image source and the preview URL are ASCII texts
  (a data URL, an object URL). The filters are the entries \<open>(key, label, css)\<close> of
  \<open>FILTERS\<close>. The state \<open>filter\<close> is written \<open>filter'\<close>, a file's \<open>size\<close>
  \<open>size'\<close> and the context's \<open>rotate\<close> \<open>rotate'\<close>.
\<close>

record CropArea =
  x :: int
  y :: int
  width :: int
  height :: int

definition FILTERS :: "(string \<times> string \<times> string) list" where
  "FILTERS =
    [(''none'', ''Sin filtro'', ''none''),
     (''grayscale'', ''Blanco y negro'', ''grayscale(1)''),
     (''sepia'', ''Sepia'', ''sepia(0.8)''),
     (''contrast'', ''Contraste'', ''contrast(1.4)''),
     (''bright'', ''Brillo'', ''brightness(1.2)'')]"

text \<open>
  The component state, and the calls of the \<open>onFeedback\<close> prop made so far
  (message and event type).
\<close>

record EditorState =
  imageSrc :: "string option"
  crop :: "real \<times> real"
  zoom :: real
  rotation :: real
  croppedAreaPixels :: "CropArea option"
  filter' :: string
  previewUrl :: "string option"
  feedbacks :: "(string \<times> string) list"

definition initialEditorState :: EditorState where
  "initialEditorState =
    \<lparr>imageSrc = None, crop = (0, 0), zoom = 1, rotation = 0, croppedAreaPixels = None,
     filter' = ''none'', previewUrl = None, feedbacks = []\<rparr>"

definition onFeedback :: "string \<Rightarrow> string \<Rightarrow> EditorState \<Rightarrow> EditorState" where
  "onFeedback msg ty st = st\<lparr>feedbacks := feedbacks st @ [(msg, ty)]\<rparr>"

text \<open>
  \<open>onSelectFile\<close>: \<open>file\<close> is \<open>e.target.files?.[0]\<close>, and \<open>readAsDataURL\<close> gives
  the reader's result, or \<open>None\<close> when the read fails and \<open>onload\<close> never fires.
\<close>

record File =
  name :: string
  size' :: nat

definition reader_onload :: "string \<Rightarrow> EditorState \<Rightarrow> EditorState" where
  "reader_onload result st =
    onFeedback ''Imagen cargada'' ''photo_upload''
      (st\<lparr>imageSrc := Some result, crop := (0, 0), zoom := 1, rotation := 0,
          filter' := ''none''\<rparr>)"

definition onSelectFile ::
  "(File \<Rightarrow> string option) \<Rightarrow> File option \<Rightarrow> EditorState \<Rightarrow> EditorState" where
  "onSelectFile readAsDataURL file st =
    (case file of
       None \<Rightarrow> st
     | Some f \<Rightarrow>
        (case readAsDataURL f of None \<Rightarrow> st | Some result \<Rightarrow> reader_onload result st))"

definition onCropComplete :: "CropArea \<Rightarrow> EditorState \<Rightarrow> EditorState" where
  "onCropComplete pixels st = st\<lparr>croppedAreaPixels := Some pixels\<rparr>"

definition filterCss :: "string \<Rightarrow> string" where
  "filterCss f =
    (case find (\<lambda>(k, l, c). k = f) FILTERS of Some (k, l, c) \<Rightarrow> c | None \<Rightarrow> ''none'')"

text \<open>
  The drawing surface. A canvas has its bitmap size, the state of its 2D context
  (filter and the transformations applied so far) and the drawing calls made on it,
  each with the filter and transformation in force. Assigning \<open>width\<close> or
  \<open>height\<close> resizes the bitmap, clears it and resets the context. Both are
  \<open>unsigned long\<close> attributes: the number assigned is taken modulo \<open>2^32\<close>, and a
  result above \<open>2^31 - 1\<close> is replaced by the attribute's default, 300 for the
  width and 150 for the height.
\<close>

record Image =
  image_width :: int
  image_height :: int

datatype transform = Translate real real | Rotate real

record drawImage_call =
  source :: Image
  sx :: real
  sy :: real
  sWidth :: real
  sHeight :: real
  dx :: real
  dy :: real
  dWidth :: real
  dHeight :: real
  with_filter :: string
  with_transform :: "transform list"

record Canvas =
  canvas_width :: int
  canvas_height :: int
  ctx_filter :: string
  ctx_transform :: "transform list"
  drawn :: "drawImage_call list"

definition createCanvas :: Canvas where
  "createCanvas =
    \<lparr>canvas_width = 300, canvas_height = 150, ctx_filter = ''none'', ctx_transform = [],
     drawn = []\<rparr>"

definition unsigned_long :: "int \<Rightarrow> int \<Rightarrow> int" where
  "unsigned_long dflt v = (let u = v mod 2 ^ 32 in if u \<le> 2147483647 then u else dflt)"

definition set_width :: "int \<Rightarrow> Canvas \<Rightarrow> Canvas" where
  "set_width w c =
    c\<lparr>canvas_width := unsigned_long 300 w, ctx_filter := ''none'', ctx_transform := [],
      drawn := []\<rparr>"

definition set_height :: "int \<Rightarrow> Canvas \<Rightarrow> Canvas" where
  "set_height h c =
    c\<lparr>canvas_height := unsigned_long 150 h, ctx_filter := ''none'', ctx_transform := [],
      drawn := []\<rparr>"

definition set_filter :: "string \<Rightarrow> Canvas \<Rightarrow> Canvas" where
  "set_filter f c = c\<lparr>ctx_filter := f\<rparr>"

definition translate :: "real \<Rightarrow> real \<Rightarrow> Canvas \<Rightarrow> Canvas" where
  "translate tx ty c = c\<lparr>ctx_transform := ctx_transform c @ [Translate tx ty]\<rparr>"

definition rotate' :: "real \<Rightarrow> Canvas \<Rightarrow> Canvas" where
  "rotate' a c = c\<lparr>ctx_transform := ctx_transform c @ [Rotate a]\<rparr>"

definition drawImage ::
  "Image \<Rightarrow> real \<Rightarrow> real \<Rightarrow> real \<Rightarrow> real \<Rightarrow> real \<Rightarrow> real \<Rightarrow> real \<Rightarrow> real \<Rightarrow> Canvas \<Rightarrow> Canvas" where
  "drawImage img a b c d e f g h cv =
    cv\<lparr>drawn := drawn cv @
      [\<lparr>source = img, sx = a, sy = b, sWidth = c, sHeight = d, dx = e, dy = f, dWidth = g,
        dHeight = h, with_filter = ctx_filter cv, with_transform = ctx_transform cv\<rparr>]\<rparr>"

text \<open>
  The browser decides three things: whether the image loads (\<open>createImage\<close>
  resolves with the decoded image or rejects), whether a 2D context can be had, and
  whether it can produce a bitmap of a given width and height (browsers limit the size
  of a canvas).
\<close>

datatype raster_error = ImageLoadError | CanvasContextNotAvailable

record Browser =
  createImage :: "string \<Rightarrow> Image option"
  context2d :: bool
  bitmap_available :: "int \<Rightarrow> int \<Rightarrow> bool"

text \<open>
  \<open>canvas.toBlob(..., 'image/png')\<close>: the callback receives the PNG of the bitmap,
  which has the canvas's size and the pixels the drawing calls painted, or \<open>null\<close>
  (\<open>None\<close>) when the bitmap has no pixels or the browser cannot produce it.
\<close>

record Blob =
  mime :: string
  raster_width :: int
  raster_height :: int
  painted :: "drawImage_call list"

definition toBlob :: "Browser \<Rightarrow> Canvas \<Rightarrow> Blob option" where
  "toBlob br c =
    (if canvas_width c = 0 \<or> canvas_height c = 0
        \<or> \<not> bitmap_available br (canvas_width c) (canvas_height c)
     then None
     else Some \<lparr>mime = ''image/png'', raster_width = canvas_width c,
                 raster_height = canvas_height c, painted = drawn c\<rparr>)"

text \<open>
  \<open>getCroppedImg\<close>. The promise it returns resolves with what \<open>toBlob\<close> hands
  to its callback (\<open>blob as Blob\<close>), a blob or \<open>null\<close>.
\<close>

definition getCroppedImg ::
  "Browser \<Rightarrow> string \<Rightarrow> CropArea \<Rightarrow> real \<Rightarrow> string \<Rightarrow> raster_error + Blob option" where
  "getCroppedImg br imageSrcLocal cropPixels rotationDeg cssFilter =
    (case createImage br imageSrcLocal of
       None \<Rightarrow> Inl ImageLoadError
     | Some img \<Rightarrow>
        if \<not> context2d br then Inl CanvasContextNotAvailable
        else
          let safeArea = max (image_width img) (image_height img) * 2;
              c0 = createCanvas;
              c1 = set_width (width cropPixels) c0;
              c2 = set_height (height cropPixels) c1;
              c3 = set_filter cssFilter c2;
              c4 = translate (real_of_int (canvas_width c3) / 2) (real_of_int (canvas_height c3) / 2) c3;
              c5 = rotate' ((rotationDeg * pi) / 180) c4;
              c6 = translate (- real_of_int (canvas_width c5) / 2) (- real_of_int (canvas_height c5) / 2) c5;
              c7 = drawImage img
                     (real_of_int (x cropPixels)) (real_of_int (y cropPixels))
                     (real_of_int (width cropPixels)) (real_of_int (height cropPixels))
                     0 0
                     (real_of_int (width cropPixels)) (real_of_int (height cropPixels)) c6
          in Inr (toBlob br c7))"

text \<open>Concrete inputs used to exercise the theorems below.\<close>

definition crop_100 :: CropArea where
  "crop_100 = \<lparr>x = 0, y = 0, width = 100, height = 100\<rparr>"

definition photo_800_600 :: Browser where
  "photo_800_600 =
    \<lparr>createImage = (\<lambda>url. if url = ''data:image/jpeg;base64,dGVzdA==''
         then Some \<lparr>image_width = 800, image_height = 600\<rparr> else None),
     context2d = True,
     bitmap_available = (\<lambda>w h. w \<le> 16384 \<and> h \<le> 16384)\<rparr>"

definition edited_state :: EditorState where
  "edited_state =
    \<lparr>imageSrc = Some ''data:image/jpeg;base64,dGVzdA=='', crop = (12, -7), zoom = 2,
     rotation = 90, croppedAreaPixels = Some crop_100, filter' = ''sepia'',
     previewUrl = Some ''blob:preview-1'', feedbacks = []\<rparr>"

definition second_file :: File where
  "second_file = \<lparr>name = ''second.png'', size' = 4\<rparr>"

definition read_second :: "File \<Rightarrow> string option" where
  "read_second f = (if name f = ''second.png'' then Some ''data:image/png;base64,AAAA'' else None)"

section \<open>Test-mode task tracker (TestModePanel)\<close>

text \<open>
  The panel receives the global event log as its \<open>events\<close> prop and keeps one
  \<open>TaskState\<close> per task key. Timestamps are the integer milliseconds of
  \<open>Date.now()\<close>; \<open>null\<close> is \<open>None\<close>. Event type tags are only ever
  compared for equality, and every tag the repository emits is an ASCII literal, so
  they are modelled as \<open>string\<close>. The \<open>meta\<close> attachment of an event and the
  \<open>label\<close> of a task are display data that no transition reads; they are left out.
\<close>

datatype TaskKey = Photo_edit | Sound | Voice | Three

record TaskConfig =
  key :: TaskKey
  successEvents :: "string list"

definition TASKS :: "TaskConfig list" where
  "TASKS =
    [\<lparr>key = Photo_edit, successEvents = [''photo_preview_ready'', ''photo_exported'']\<rparr>,
     \<lparr>key = Sound, successEvents = [''sound_played'']\<rparr>,
     \<lparr>key = Voice, successEvents = [''post_scheduled'', ''voice_match_true'']\<rparr>,
     \<lparr>key = Three, successEvents = [''three_visible'']\<rparr>]"

record TaskState =
  running :: bool
  startT :: "int option"
  endT :: "int option"

type_synonym TaskStates = "TaskKey \<Rightarrow> TaskState"

text \<open>
  The component: the \<open>events\<close> prop, the \<open>taskState\<close> state cell and the
  \<open>lastEventRef\<close> ref (which the source writes and never reads).
\<close>

record panel =
  events :: "LogEvent list"
  taskState :: TaskStates
  lastEventRef :: "LogEvent option"

definition initialTaskState :: TaskStates where
  "initialTaskState = (\<lambda>_. \<lparr>running = False, startT = None, endT = None\<rparr>)"

text \<open>
  One iteration of \<open>TASKS.forEach\<close> inside the effect. \<open>ts\<close> is the
  \<open>taskState\<close> captured by the render that scheduled the effect; \<open>prev\<close> is
  the state the queued functional updates are applied to, in order.
\<close>

definition effect_task :: "LogEvent \<Rightarrow> TaskStates \<Rightarrow> TaskConfig \<Rightarrow> TaskStates \<Rightarrow> TaskStates" where
  "effect_task lst ts task prev =
    (let st = ts (key task) in
     if \<not> running st \<or> startT st = None \<or> endT st \<noteq> None then prev
     else if type lst \<in> set (successEvents task)
       then prev(key task := \<lparr>running = False, startT = startT st, endT = Some (t lst)\<rparr>)
       else prev)"

text \<open>Whether that iteration calls \<open>setTaskState\<close>.\<close>

definition task_fires :: "LogEvent \<Rightarrow> TaskStates \<Rightarrow> TaskConfig \<Rightarrow> bool" where
  "task_fires lst ts task =
    (let st = ts (key task) in
     if \<not> running st \<or> startT st = None \<or> endT st \<noteq> None then False
     else type lst \<in> set (successEvents task))"

text \<open>One run of the \<open>useEffect\<close> body, with its state updates applied.\<close>

definition effect :: "panel \<Rightarrow> panel" where
  "effect p =
    (if events p = [] then p
     else let lst = last (events p) in
       p\<lparr>lastEventRef := Some lst,
         taskState := fold (effect_task lst (taskState p)) TASKS (taskState p)\<rparr>)"

definition effect_sets_state :: "panel \<Rightarrow> bool" where
  "effect_sets_state p =
    (if events p = [] then False
     else list_ex (task_fires (last (events p)) (taskState p)) TASKS)"

text \<open>
  The effect depends on \<open>[events, taskState]\<close>: it runs after every render in which
  either changed, and each \<open>setTaskState\<close> it makes causes another render, after
  which it runs again. \<open>after_render\<close> follows that cycle until a run of the effect
  leaves the state alone; \<open>None\<close> would be a render loop that never settles.
\<close>

partial_function (option) after_render :: "panel \<Rightarrow> panel option" where
  "after_render p =
    (if effect_sets_state p then after_render (effect p) else Some (effect p))"

declare after_render.simps [code]

definition startTask :: "TaskKey \<Rightarrow> int \<Rightarrow> TaskStates \<Rightarrow> TaskStates" where
  "startTask k now prev = prev(k := \<lparr>running = True, startT = Some now, endT = None\<rparr>)"

definition resetTask :: "TaskKey \<Rightarrow> TaskStates \<Rightarrow> TaskStates" where
  "resetTask k prev = prev(k := \<lparr>running = False, startT = None, endT = None\<rparr>)"

text \<open>
  What can happen to a mounted panel: \<open>startTask\<close> and \<open>resetTask\<close> are called
  with the clock reading \<open>nowFn()\<close>; the user presses the start button, which
  carries \<open>disabled={st.running}\<close> and so calls \<open>startTask\<close> only when the task
  is not running; or the panel is rendered with a longer \<open>events\<close> prop.
  \<open>Append es\<close> is such a render, \<open>es\<close> being the events the parent has appended
  since the previous one: one event when it was logged on its own, several when one
  handler of the parent logged several (their state updates are batched into one
  render). Each change of state or props is followed by a render and the effect.
\<close>

datatype action =
    Start TaskKey int
  | Reset TaskKey
  | Append "LogEvent list"
  | Press_start TaskKey int

fun step :: "action \<Rightarrow> panel \<Rightarrow> panel option" where
  "step (Start k now) p = after_render (p\<lparr>taskState := startTask k now (taskState p)\<rparr>)"
| "step (Reset k) p = after_render (p\<lparr>taskState := resetTask k (taskState p)\<rparr>)"
| "step (Append es) p =
    (if es = [] then Some p else after_render (p\<lparr>events := events p @ es\<rparr>))"
| "step (Press_start k now) p =
    (if running (taskState p k) then Some p
     else after_render (p\<lparr>taskState := startTask k now (taskState p)\<rparr>))"

fun run :: "action list \<Rightarrow> panel \<Rightarrow> panel option" where
  "run [] p = Some p"
| "run (a # as) p = (case step a p of None \<Rightarrow> None | Some p' \<Rightarrow> run as p')"

text \<open>Mounting the panel on a log \<open>evs\<close>: the initial state, then the first effect.\<close>

definition mount :: "LogEvent list \<Rightarrow> panel option" where
  "mount evs = after_render \<lparr>events = evs, taskState = initialTaskState, lastEventRef = None\<rparr>"

text \<open>
  The three states of a task, by the values the source writes: the initial and
  reset value (Pending), the value \<open>startTask\<close> writes (Running, which is also the
  effect's guard), and the value the effect writes (Completed).
\<close>

definition is_pending :: "TaskState \<Rightarrow> bool" where
  "is_pending st = (\<not> running st \<and> startT st = None \<and> endT st = None)"

definition is_running :: "TaskState \<Rightarrow> bool" where
  "is_running st = (running st \<and> startT st \<noteq> None \<and> endT st = None)"

definition is_completed :: "TaskState \<Rightarrow> bool" where
  "is_completed st = (\<not> running st \<and> startT st \<noteq> None \<and> endT st \<noteq> None)"

definition phase_count :: "TaskState \<Rightarrow> nat" where
  "phase_count st = length (filter (\<lambda>b. b) [is_pending st, is_running st, is_completed st])"

definition task_inv :: "TaskState \<Rightarrow> bool" where
  "task_inv st = (phase_count st = 1 \<and> (endT st \<noteq> None) = is_completed st)"

text \<open>
  The label a row shows (\<open>rows\<close>): \<open>st.endT ? ... : ...\<close> tests the end time
  for truthiness, and the number 0 is falsy.
\<close>

definition status :: "TaskState \<Rightarrow> string" where
  "status st =
    (if (case endT st of None \<Rightarrow> False | Some e \<Rightarrow> e \<noteq> 0) then ''Completada''
     else if running st then ''En curso'' else ''Pendiente'')"

text \<open>The value the effect writes for a task it completes on event \<open>lst\<close>.\<close>

definition completed_by :: "LogEvent \<Rightarrow> TaskState \<Rightarrow> TaskState" where
  "completed_by lst st = \<lparr>running = False, startT = startT st, endT = Some (t lst)\<rparr>"

text \<open>A session of the panel: it is mounted on the log so far, then the actions happen.\<close>

definition session :: "LogEvent list \<Rightarrow> action list \<Rightarrow> panel option" where
  "session evs as = (case mount evs of None \<Rightarrow> None | Some p \<Rightarrow> run as p)"

definition panel_inv :: "panel \<Rightarrow> bool" where
  "panel_inv p = (\<forall>k. task_inv (taskState p k))"

text \<open>Concrete inputs used to exercise the theorems below.\<close>

definition sound_running :: panel where
  "sound_running =
    \<lparr>events = [], taskState = startTask Sound 10 initialTaskState, lastEventRef = None\<rparr>"

definition sound_played_20 :: LogEvent where
  "sound_played_20 = \<lparr>type = ''sound_played'', t = 20\<rparr>"

definition crop_change_21 :: LogEvent where
  "crop_change_21 = \<lparr>type = ''crop_change'', t = 21\<rparr>"

definition voice_running :: panel where
  "voice_running =
    \<lparr>events = [], taskState = startTask Voice 10 initialTaskState, lastEventRef = None\<rparr>"

text \<open>The events one recognised voice command logs, in one render.\<close>

definition voice_batch :: "LogEvent list" where
  "voice_batch =
    [\<lparr>type = ''voice_submit'', t = 19\<rparr>, \<lparr>type = ''post_scheduled'', t = 20\<rparr>,
     \<lparr>type = ''post_scheduled'', t = 21\<rparr>]"

section \<open>Strings of integers, and what the handlers do to the post list\<close>

lemma str_Nil: "str [] = []" by (simp add: str_def)
lemma str_Cons: "str (c # cs) = of_char c # str cs" by (simp add: str_def)

lemma undecimal_snoc: "undecimal (ds @ [d]) = 10 * undecimal ds + (d - 0x30)"
  by (simp add: undecimal_def)

lemma undecimal_decimal: "undecimal (decimal n) = n"
proof (induction n rule: decimal.induct)
  case (1 n)
  show ?case
  proof (cases "n < 10")
    case True
    then show ?thesis by (subst decimal.simps) (simp add: undecimal_def)
  next
    case False
    with 1 have "undecimal (decimal (n div 10)) = n div 10" by simp
    with False show ?thesis by (subst decimal.simps) (simp add: undecimal_snoc)
  qed
qed

lemma decimal_inj: "decimal n = decimal m \<Longrightarrow> n = m"
  by (metis undecimal_decimal)

lemma decimal_digits: "set (decimal n) \<subseteq> {0x30 .. 0x39}"
proof (induction n rule: decimal.induct)
  case (1 n)
  show ?case
  proof (cases "n < 10")
    case True
    then show ?thesis by (subst decimal.simps) simp
  next
    case False
    with 1 have "set (decimal (n div 10)) \<subseteq> {0x30 .. 0x39}" by simp
    moreover have "n mod 10 < 10" by simp
    then have "0x30 + n mod 10 \<in> {0x30 .. 0x39}" by simp
    ultimately show ?thesis using False by (subst decimal.simps) simp
  qed
qed

lemma decimal_no_minus: "decimal n \<noteq> 0x2D # ds"
proof
  assume "decimal n = 0x2D # ds"
  then have "0x2D \<in> set (decimal n)" by simp
  with decimal_digits [of n] show False by auto
qed

lemma js_String_inj: "(js_String i = js_String j) = (i = j)"
proof
  assume eq: "js_String i = js_String j"
  show "i = j"
  proof (cases "i < 0")
    case True
    show ?thesis
    proof (cases "j < 0")
      case jn: True
      with True eq have "decimal (nat (- i)) = decimal (nat (- j))" by (simp add: js_String_def)
      then have "nat (- i) = nat (- j)" by (rule decimal_inj)
      with True jn show ?thesis by simp
    next
      case False
      with True eq have "decimal (nat j) = 0x2D # decimal (nat (- i))" by (simp add: js_String_def)
      with decimal_no_minus show ?thesis by blast
    qed
  next
    case False
    show ?thesis
    proof (cases "j < 0")
      case True
      with False eq have "decimal (nat i) = 0x2D # decimal (nat (- j))" by (simp add: js_String_def)
      with decimal_no_minus show ?thesis by blast
    next
      case jn: False
      with False eq have "decimal (nat i) = decimal (nat j)" by (simp add: js_String_def)
      then have "nat i = nat j" by (rule decimal_inj)
      with False jn show ?thesis by simp
    qed
  qed
qed simp

lemma distinct_map_js_String: "distinct (map js_String xs) = distinct xs"
  by (simp add: distinct_map inj_on_def js_String_inj)

lemma log_posts: "scheduledPosts (log now ty s) = scheduledPosts s"
  by (simp add: log_def)

lemma log_nowCalls: "nowCalls (log now ty s) = Suc (nowCalls s)"
  by (simp add: log_def)

lemma handleFeedback_posts: "scheduledPosts (handleFeedback now msg ty s) = scheduledPosts s"
  by (simp add: handleFeedback_def log_def)

lemma handleFeedback_nowCalls: "nowCalls (handleFeedback now msg ty s) = Suc (nowCalls s)"
  by (simp add: handleFeedback_def log_def)

lemma save_posts:
  "scheduledPosts (saveScheduledPost now getTime s) =
     \<lparr>id' = js_String (now (nowCalls s)), createdAt = now (Suc (nowCalls s)),
      title = (if trim (manualTitle s) = [] then default_title else trim (manualTitle s)),
      description = trim (description' s), scheduledAt = getTime (scheduledAtLocal s)\<rparr>
     # scheduledPosts s"
  by (simp add: saveScheduledPost_def Let_def handleFeedback_posts log_posts)

lemma save_nowCalls: "nowCalls (saveScheduledPost now getTime s) = nowCalls s + 4"
  by (simp add: saveScheduledPost_def Let_def handleFeedback_nowCalls log_nowCalls)

lemma voice_posts:
  "scheduledPosts (onVoiceSubmit now s) =
     (if isScheduleIntent (voiceText s)
      then \<lparr>id' = js_String (now (Suc (nowCalls s))), createdAt = now (Suc (Suc (nowCalls s))),
            title = default_title\<rparr> # scheduledPosts s
      else scheduledPosts s)"
  by (simp add: onVoiceSubmit_def Let_def handleFeedback_posts log_posts log_nowCalls log_def)

lemma voice_nowCalls:
  "nowCalls (onVoiceSubmit now s) =
     (if isScheduleIntent (voiceText s) then nowCalls s + 5 else nowCalls s + 2)"
  by (simp add: onVoiceSubmit_def Let_def handleFeedback_nowCalls log_nowCalls log_def)

lemma voice_voiceText: "voiceText (onVoiceSubmit now s) = voiceText s"
  by (simp add: onVoiceSubmit_def Let_def handleFeedback_def log_def)

lemma form_session_ids:
  "map id' (scheduledPosts (form_session now g as s)) =
     map js_String (form_id_readings now (nowCalls s) as) @ map id' (scheduledPosts s)"
  unfolding form_session_def
proof (induction as arbitrary: s)
  case Nil
  then show ?case by simp
next
  case (Cons a as)
  show ?case
  proof (cases a)
    case Save
    with Cons.IH [of "saveScheduledPost now g s"] show ?thesis
      by (simp add: save_nowCalls save_posts)
  qed (use Cons.IH in simp_all)
qed

lemma voice_session_ids:
  "map id' (scheduledPosts (voice_session now as s)) =
     map js_String (voice_id_readings now (nowCalls s) (voiceText s) as) @ map id' (scheduledPosts s)"
  unfolding voice_session_def
proof (induction as arbitrary: s)
  case Nil
  then show ?case by simp
next
  case (Cons a as)
  show ?case
  proof (cases a)
    case (SetVoiceText v)
    with Cons.IH [of "s\<lparr>voiceText := v\<rparr>"] show ?thesis by simp
  next
    case Submit
    with Cons.IH [of "onVoiceSubmit now s"] show ?thesis
      by (simp add: voice_nowCalls voice_posts voice_voiceText)
  qed
qed

lemmas app_eval =
  form_session_def voice_session_def init_scheduler_def init_voice_def save_posts save_nowCalls
  voice_posts voice_nowCalls voice_voiceText

text \<open>Evaluating the interpreter on the three example commands.\<close>

lemmas normalize_eval =
  str_Nil str_Cons normalize_def toLowerCase_def lower_unit_def normalizeNFD_def
  nfd_unit_def nfd_table_def nfd_upper_def strip_marks_def trim_def is_space_def

lemma length_str: "length (str s) = length s"
  by (simp add: str_def)

lemma ends_Lit_too_long:
  assumes "length s < length w"
  shows "ends (Lit w) s i = []"
proof -
  have "length (take (length w) (drop i s)) < length w" using assms by simp
  then have "take (length w) (drop i s) \<noteq> w" by (metis less_irrefl)
  then show ?thesis by simp
qed

lemma ends_boundary_lit_too_long:
  "length s < length w \<Longrightarrow> ends (cat (WordBoundary # Lit w # rs)) s i = []"
  by (simp add: cat_def ends_Lit_too_long del: ends.simps(1))

lemma test_too_short:
  "length s < length w \<Longrightarrow> \<not> test (cat (WordBoundary # Lit w # rs)) s"
  by (simp add: test_def list_ex_iff ends_boundary_lit_too_long)

lemma hola_norm: "normalize (str ''hola'') = str ''hola''"
  by (simp add: normalize_eval)

lemma hola_no: "\<not> isScheduleIntent (str ''hola'')"
  by (simp add: isScheduleIntent_def hola_norm patterns_def test_too_short length_str)

lemmas regex_eval =
  str_Nil str_Cons cat_def word_at_def is_word_def is_line_terminator_def

lemma testI: "i \<le> length s \<Longrightarrow> ends r s i \<noteq> [] \<Longrightarrow> test r s"
  by (auto simp: test_def list_ex_iff simp del: upt_Suc intro!: bexI [where x = i])

lemma sched_norm: "normalize (str ''schedule a post'') = str ''schedule a post''"
  by (simp add: normalize_eval)

lemma sched_yes: "isScheduleIntent (str ''schedule a post'')"
proof -
  have "test (patterns ! 3) (str ''schedule a post'')"
    by (rule testI [where i = 0]) (simp_all add: patterns_def regex_eval)
  then show ?thesis by (simp add: isScheduleIntent_def sched_norm patterns_def)
qed

lemma prog_norm: "normalize programar_publicacion = str ''programar publicacion''"
  by (simp add: programar_publicacion_def normalize_eval)

lemma prog_yes: "isScheduleIntent programar_publicacion"
proof -
  have "test (patterns ! 0) (str ''programar publicacion'')"
    by (rule testI [where i = 0]) (simp_all add: patterns_def regex_eval)
  then show ?thesis by (simp add: isScheduleIntent_def prog_norm patterns_def)
qed

section \<open>Unfolding the canvas operations\<close>

lemmas canvas_eval =
  createCanvas_def set_width_def set_height_def set_filter_def translate_def rotate'_def
  drawImage_def toBlob_def

text \<open>A canvas size: kept as it is within the range, replaced or wrapped outside it.\<close>

lemma unsigned_long_in_range:
  "0 \<le> v \<Longrightarrow> v \<le> 2147483647 \<Longrightarrow> unsigned_long dflt v = v"
  by (simp add: unsigned_long_def Let_def)

lemma unsigned_long_negative: "unsigned_long 300 (- 5) = 300"
  by (simp add: unsigned_long_def Let_def)

lemma unsigned_long_above: "unsigned_long 300 2147483648 = 300"
  by (simp add: unsigned_long_def Let_def)

lemma unsigned_long_wraps: "unsigned_long 300 (4294967296 + 10) = 10"
  by (simp add: unsigned_long_def Let_def)

lemma toBlob_null:
  "\<not> bitmap_available br (canvas_width c) (canvas_height c) \<Longrightarrow> toBlob br c = None"
  by (simp add: toBlob_def)

section \<open>Claims about the application shell\<close>

text \<open>
  C9, as stated, fails: an id is the text of one clock reading. With a clock that
  returns the same millisecond throughout, two saves with different titles leave two
  different posts with the same id in the list.
\<close>

theorem same_millisecond_same_id:
  "map title (scheduledPosts (form_session frozen getTime0 two_saves (init_scheduler frozen [])))
     = [str ''b'', str ''a''] \<and>
   map id' (scheduledPosts (form_session frozen getTime0 two_saves (init_scheduler frozen [])))
     = [js_String 1700000000000, js_String 1700000000000] \<and>
   \<not> distinct (map id' (scheduledPosts (form_session frozen getTime0 two_saves (init_scheduler frozen []))))"
  by (simp add: two_saves_def app_eval frozen_def trim_def is_space_def str_Nil str_Cons)

text \<open>
  C9, amended. In a session of the scheduling form, and in a session of the voice
  input, started from the freshly mounted page, the ids of the posts in the list are
  the decimal texts of the clock readings taken when each post was created (most
  recent first), and they are pairwise distinct exactly when those readings are.
\<close>

theorem post_ids_distinct_iff_readings_distinct:
  "map id' (scheduledPosts (form_session now getTime as (init_scheduler now local0)))
     = map js_String (form_id_readings now 1 as) \<and>
   distinct (map id' (scheduledPosts (form_session now getTime as (init_scheduler now local0))))
     = distinct (form_id_readings now 1 as) \<and>
   map id' (scheduledPosts (voice_session now vs (init_voice now)))
     = map js_String (voice_id_readings now 1 [] vs) \<and>
   distinct (map id' (scheduledPosts (voice_session now vs (init_voice now))))
     = distinct (voice_id_readings now 1 [] vs)"
proof -
  have f: "map id' (scheduledPosts (form_session now getTime as (init_scheduler now local0)))
     = map js_String (form_id_readings now 1 as)"
    using form_session_ids [of now getTime as "init_scheduler now local0"]
    by (simp add: init_scheduler_def)
  have v: "map id' (scheduledPosts (voice_session now vs (init_voice now)))
     = map js_String (voice_id_readings now 1 [] vs)"
    using voice_session_ids [of now vs "init_voice now"]
    by (simp add: init_voice_def)
  from f v show ?thesis by (simp only: distinct_map_js_String simp_thms)
qed

theorem post_ids_distinct_iff_readings_distinct_witness:
  "form_id_readings ticking 1 two_saves = [1700000000005, 1700000000001] \<and>
   distinct (map id' (scheduledPosts (form_session ticking getTime0 two_saves (init_scheduler ticking []))))"
proof -
  have r: "form_id_readings ticking 1 two_saves = [1700000000005, 1700000000001]"
    by (simp add: two_saves_def ticking_def)
  from post_ids_distinct_iff_readings_distinct [of ticking getTime0 two_saves "[]" "[]"]
  have "distinct (map id' (scheduledPosts (form_session ticking getTime0 two_saves (init_scheduler ticking []))))
     = distinct (form_id_readings ticking 1 two_saves)"
    by blast
  also have "\<dots> = True" by (simp only: r) simp
  finally show ?thesis using r by simp
qed

text \<open>
  C6, as stated, fails for descriptions with surrounding white space: the saved
  description is the trimmed text. With the description \<open>" x"\<close> (and a blank
  title) the post's description is \<open>"x"\<close>, not the text given.
\<close>

theorem save_trims_description:
  "trim (manualTitle padded_form) = [] \<and>
   description' padded_form = str '' x'' \<and>
   map description (scheduledPosts (saveScheduledPost ticking getTime0 padded_form)) = [str ''x''] \<and>
   map description (scheduledPosts (saveScheduledPost ticking getTime0 padded_form))
     \<noteq> [description' padded_form]"
  by (simp add: padded_form_def init_scheduler_def save_posts trim_def is_space_def str_Nil str_Cons)

text \<open>
  C6, amended. When the trimmed title is empty, saving puts one new post in front of
  the list and leaves the posts already there unchanged after it. Its title is the
  placeholder, its description is the description input with leading and trailing
  white space removed, and its \<open>scheduledAt\<close> is the instant the browser reads from
  the date-time input; its id and creation time are the next two clock readings.
\<close>

theorem save_with_blank_title:
  assumes "trim (manualTitle s) = []"
  shows "scheduledPosts (saveScheduledPost now getTime s) =
     \<lparr>id' = js_String (now (nowCalls s)), createdAt = now (Suc (nowCalls s)),
      title = default_title, description = trim (description' s),
      scheduledAt = getTime (scheduledAtLocal s)\<rparr>
     # scheduledPosts s"
  using assms by (simp add: saveScheduledPost_def Let_def handleFeedback_def log_def)

theorem save_with_blank_title_witness:
  "trim (manualTitle padded_form) = [] \<and>
   scheduledPosts (saveScheduledPost ticking getTime0 padded_form) =
     [\<lparr>id' = js_String 1700000000001, createdAt = 1700000000002,
       title = default_title, description = str ''x'',
       scheduledAt = Some 1893492000000\<rparr>]"
proof -
  have b: "trim (manualTitle padded_form) = []"
    by (simp add: padded_form_def init_scheduler_def trim_def is_space_def str_Nil str_Cons)
  have "trim (description' padded_form) = str ''x''"
    by (simp add: padded_form_def init_scheduler_def trim_def is_space_def str_Nil str_Cons)
  with save_with_blank_title [OF b, of ticking getTime0] b show ?thesis
    by (simp add: padded_form_def init_scheduler_def ticking_def getTime0_def)
qed

text \<open>
  C7. When the voice text is \<open>programar_publicacion\<close> (the Spanish command, its
  accented letter being the code unit \<open>U+00F3\<close>) or \<open>"schedule a post"\<close>, the intent matches and submitting
  puts a new post with the default title in front of the list; when it is
  \<open>"hola"\<close>, the intent does not match and the list is unchanged.
\<close>

theorem voice_command_examples:
  "(voiceText s = programar_publicacion \<or> voiceText s = str ''schedule a post'' \<longrightarrow>
      isScheduleIntent (voiceText s) \<and>
      scheduledPosts (onVoiceSubmit now s) =
        \<lparr>id' = js_String (now (Suc (nowCalls s))), createdAt = now (Suc (Suc (nowCalls s))),
         title = default_title\<rparr> # scheduledPosts s) \<and>
   (voiceText s = str ''hola'' \<longrightarrow>
      \<not> isScheduleIntent (voiceText s) \<and>
      scheduledPosts (onVoiceSubmit now s) = scheduledPosts s)"
proof (intro conjI impI)
  assume a: "voiceText s = programar_publicacion \<or> voiceText s = str ''schedule a post''"
  from a show m: "isScheduleIntent (voiceText s)"
  proof
    assume "voiceText s = programar_publicacion"
    then show ?thesis by (simp only: prog_yes)
  next
    assume "voiceText s = str ''schedule a post''"
    then show ?thesis by (simp only: sched_yes)
  qed
  show "scheduledPosts (onVoiceSubmit now s) =
        \<lparr>id' = js_String (now (Suc (nowCalls s))), createdAt = now (Suc (Suc (nowCalls s))),
         title = default_title\<rparr> # scheduledPosts s"
    by (simp only: voice_posts m if_True)
next
  assume h: "voiceText s = str ''hola''"
  then show n: "\<not> isScheduleIntent (voiceText s)" by (simp only: hola_no not_False_eq_True)
  show "scheduledPosts (onVoiceSubmit now s) = scheduledPosts s"
    by (simp only: voice_posts n if_False)
qed

theorem voice_command_examples_witness:
  "scheduledPosts (onVoiceSubmit ticking (voice_with programar_publicacion)) =
     [\<lparr>id' = js_String 1700000000002, createdAt = 1700000000003, title = default_title\<rparr>] \<and>
   scheduledPosts (onVoiceSubmit ticking (voice_with (str ''schedule a post''))) =
     [\<lparr>id' = js_String 1700000000002, createdAt = 1700000000003, title = default_title\<rparr>] \<and>
   scheduledPosts (onVoiceSubmit ticking (voice_with (str ''hola''))) = []"
proof -
  have v: "voiceText (voice_with x) = x" "nowCalls (voice_with x) = 1"
    "scheduledPosts (voice_with x) = []" for x
    by (simp_all add: voice_with_def init_voice_def)
  from voice_command_examples [of "voice_with programar_publicacion" ticking]
  have 1: "scheduledPosts (onVoiceSubmit ticking (voice_with programar_publicacion)) =
     [\<lparr>id' = js_String 1700000000002, createdAt = 1700000000003, title = default_title\<rparr>]"
    by (simp add: v ticking_def)
  from voice_command_examples [of "voice_with (str ''schedule a post'')" ticking]
  have 2: "scheduledPosts (onVoiceSubmit ticking (voice_with (str ''schedule a post''))) =
     [\<lparr>id' = js_String 1700000000002, createdAt = 1700000000003, title = default_title\<rparr>]"
    by (simp add: v ticking_def)
  from voice_command_examples [of "voice_with (str ''hola'')" ticking]
  have 3: "scheduledPosts (onVoiceSubmit ticking (voice_with (str ''hola''))) = []"
    by (simp add: v)
  from 1 2 3 show ?thesis by blast
qed

section \<open>Claims about the photo editor\<close>

text \<open>
  C1. When the source image loads, a 2D context is available and the browser can
  produce a bitmap of the crop rectangle's size, \<open>getCroppedImg\<close> returns a blob,
  and for a crop rectangle of positive width and height (within the range of a canvas
  size, at most \<open>2^31 - 1\<close>) the raster in it has exactly that width and height,
  whatever the rotation angle and whichever filter is selected (the CSS filter passed
  is \<open>filterCss\<close> of the selected key).
\<close>

theorem rasterized_size_is_crop_size:
  assumes "createImage br src = Some img" and "context2d br"
    and "0 < width cropPixels" and "width cropPixels \<le> 2147483647"
    and "0 < height cropPixels" and "height cropPixels \<le> 2147483647"
    and "bitmap_available br (width cropPixels) (height cropPixels)"
  shows "\<exists>b. getCroppedImg br src cropPixels rotationDeg (filterCss f) = Inr (Some b) \<and>
    raster_width b = width cropPixels \<and> raster_height b = height cropPixels"
proof -
  have w: "unsigned_long 300 (width cropPixels) = width cropPixels"
    using assms(3,4) by (simp add: unsigned_long_in_range)
  have h: "unsigned_long 150 (height cropPixels) = height cropPixels"
    using assms(5,6) by (simp add: unsigned_long_in_range)
  from assms(1,2,3,5,7) show ?thesis
    by (simp add: getCroppedImg_def Let_def canvas_eval w h)
qed

theorem rasterized_size_is_crop_size_witness:
  "\<exists>b. getCroppedImg photo_800_600 ''data:image/jpeg;base64,dGVzdA=='' crop_100 90
         (filterCss ''sepia'') = Inr (Some b) \<and>
    raster_width b = 100 \<and> raster_height b = 100"
proof -
  have 1: "createImage photo_800_600 ''data:image/jpeg;base64,dGVzdA==''
      = Some \<lparr>image_width = 800, image_height = 600\<rparr>"
    by (simp add: photo_800_600_def)
  have 2: "context2d photo_800_600" by (simp add: photo_800_600_def)
  have 3: "0 < width crop_100" "width crop_100 \<le> 2147483647"
    "0 < height crop_100" "height crop_100 \<le> 2147483647"
    by (simp_all add: crop_100_def)
  have 4: "bitmap_available photo_800_600 (width crop_100) (height crop_100)"
    by (simp add: photo_800_600_def crop_100_def)
  from rasterized_size_is_crop_size [OF 1 2 3 4, of 90 "''sepia''"]
  show ?thesis by (simp add: crop_100_def)
qed

text \<open>
  C5, as stated, fails: the upload handler does not touch the last committed crop
  area or the preview URL. After a crop of 100 by 100 has been committed and a preview
  rendered, uploading a second image leaves both as they were, not at their initial
  value \<open>null\<close>.
\<close>

theorem upload_keeps_crop_area_and_preview:
  "croppedAreaPixels (onSelectFile read_second (Some second_file) edited_state) = Some crop_100 \<and>
   previewUrl (onSelectFile read_second (Some second_file) edited_state) = Some ''blob:preview-1'' \<and>
   croppedAreaPixels (onSelectFile read_second (Some second_file) edited_state)
     \<noteq> croppedAreaPixels initialEditorState \<and>
   previewUrl (onSelectFile read_second (Some second_file) edited_state)
     \<noteq> previewUrl initialEditorState"
  by (simp add: onSelectFile_def read_second_def second_file_def reader_onload_def onFeedback_def
      edited_state_def initialEditorState_def)

text \<open>
  C5, amended. Once the file has been read, the image source is the uploaded image's
  data URL, and the crop offset, the zoom factor, the rotation and the selected filter
  have their initial values; the last committed crop area and the preview URL are as
  before the upload.
\<close>

theorem upload_resets_view_settings:
  assumes "readAsDataURL f = Some result"
  shows "imageSrc (onSelectFile readAsDataURL (Some f) st) = Some result \<and>
    crop (onSelectFile readAsDataURL (Some f) st) = crop initialEditorState \<and>
    zoom (onSelectFile readAsDataURL (Some f) st) = zoom initialEditorState \<and>
    rotation (onSelectFile readAsDataURL (Some f) st) = rotation initialEditorState \<and>
    filter' (onSelectFile readAsDataURL (Some f) st) = filter' initialEditorState \<and>
    croppedAreaPixels (onSelectFile readAsDataURL (Some f) st) = croppedAreaPixels st \<and>
    previewUrl (onSelectFile readAsDataURL (Some f) st) = previewUrl st"
  using assms
  by (simp add: onSelectFile_def reader_onload_def onFeedback_def initialEditorState_def)

theorem upload_resets_view_settings_witness:
  "read_second second_file = Some ''data:image/png;base64,AAAA'' \<and>
   imageSrc (onSelectFile read_second (Some second_file) edited_state)
     = Some ''data:image/png;base64,AAAA'' \<and>
   crop (onSelectFile read_second (Some second_file) edited_state) = (0, 0) \<and>
   zoom (onSelectFile read_second (Some second_file) edited_state) = 1 \<and>
   rotation (onSelectFile read_second (Some second_file) edited_state) = 0 \<and>
   filter' (onSelectFile read_second (Some second_file) edited_state) = ''none'' \<and>
   croppedAreaPixels (onSelectFile read_second (Some second_file) edited_state) = Some crop_100 \<and>
   previewUrl (onSelectFile read_second (Some second_file) edited_state) = Some ''blob:preview-1''"
proof -
  have r: "read_second second_file = Some ''data:image/png;base64,AAAA''"
    by (simp add: read_second_def second_file_def)
  from upload_resets_view_settings [of read_second second_file _ edited_state, OF r] r
  show ?thesis
    by (simp add: initialEditorState_def edited_state_def)
qed

section \<open>The effect settles after one state update\<close>

lemma fold_effect_task_other:
  "k \<notin> key ` set cs \<Longrightarrow> fold (effect_task lst ts) cs prev k = prev k"
  by (induction cs arbitrary: prev) (auto simp: effect_task_def Let_def)

lemma keys_TASKS: "map key TASKS = [Photo_edit, Sound, Voice, Three]"
  by (simp add: TASKS_def)

lemma effect_task_key:
  "effect_task lst ts task prev (key task) =
     (if task_fires lst ts task then completed_by lst (ts (key task)) else prev (key task))"
  by (simp add: effect_task_def task_fires_def completed_by_def Let_def)

lemma effect_task_other:
  "k \<noteq> key task \<Longrightarrow> effect_task lst ts task prev k = prev k"
  by (simp add: effect_task_def Let_def)

lemma fold_effect_task_key:
  "distinct (map key cs) \<Longrightarrow> task \<in> set cs \<Longrightarrow>
   fold (effect_task lst ts) cs prev (key task) =
     (if task_fires lst ts task then completed_by lst (ts (key task)) else prev (key task))"
proof (induction cs arbitrary: prev)
  case Nil
  then show ?case by simp
next
  case (Cons c cs)
  show ?case
  proof (cases "task = c")
    case True
    with Cons.prems have "key task \<notin> key ` set cs" by auto
    then have "fold (effect_task lst ts) cs (effect_task lst ts c prev) (key task)
        = effect_task lst ts c prev (key task)"
      by (rule fold_effect_task_other)
    with True show ?thesis by (simp add: effect_task_key)
  next
    case False
    with Cons.prems have in_cs: "task \<in> set cs" and d: "distinct (map key cs)"
      and nin: "key c \<notin> key ` set cs" by auto
    have ne: "key task \<noteq> key c"
    proof
      assume "key task = key c"
      with in_cs have "key c \<in> key ` set cs" by (metis imageI)
      with nin show False by contradiction
    qed
    from Cons.IH [OF d in_cs, of "effect_task lst ts c prev"] ne
    show ?thesis by (simp add: effect_task_other)
  qed
qed

lemma distinct_keys_TASKS: "distinct (map key TASKS)"
  by (simp add: keys_TASKS)

lemma effect_events: "events (effect p) = events p"
  by (simp add: effect_def Let_def)

lemma effect_taskState:
  assumes "events p \<noteq> []" "task \<in> set TASKS"
  shows "taskState (effect p) (key task) =
     (if task_fires (last (events p)) (taskState p) task
      then completed_by (last (events p)) (taskState p (key task))
      else taskState p (key task))"
  using assms fold_effect_task_key [OF distinct_keys_TASKS assms(2)]
  by (simp add: effect_def Let_def)

lemma key_in_TASKS: "\<exists>task \<in> set TASKS. key task = k"
  by (cases k) (simp_all add: TASKS_def)

lemma task_fires_effect:
  assumes "task \<in> set TASKS" and ne: "events p \<noteq> []"
  shows "\<not> task_fires (last (events p)) (taskState (effect p)) task"
proof (cases "task_fires (last (events p)) (taskState p) task")
  case True
  with effect_taskState [OF ne assms(1)]
  show ?thesis by (simp add: task_fires_def completed_by_def)
next
  case False
  with effect_taskState [OF ne assms(1)]
  show ?thesis by (simp add: task_fires_def)
qed

lemma effect_settled: "\<not> effect_sets_state (effect p)"
proof (cases "events p = []")
  case True
  then show ?thesis by (simp add: effect_sets_state_def effect_events)
next
  case False
  then show ?thesis
    using task_fires_effect [of _ p]
    by (simp add: effect_sets_state_def effect_events list_ex_iff)
qed

lemma effect_quiet:
  assumes "\<not> effect_sets_state p"
  shows "taskState (effect p) = taskState p"
proof (cases "events p = []")
  case True
  then show ?thesis by (simp add: effect_def)
next
  case False
  show ?thesis
  proof
    fix k
    obtain task where tk: "task \<in> set TASKS" and k: "key task = k"
      using key_in_TASKS [of k] by blast
    from assms False tk have "\<not> task_fires (last (events p)) (taskState p) task"
      by (simp add: effect_sets_state_def list_ex_iff)
    with effect_taskState [OF False tk] k show "taskState (effect p) k = taskState p k"
      by simp
  qed
qed

lemma effect_lastEventRef:
  "lastEventRef (effect p) = (if events p = [] then lastEventRef p else Some (last (events p)))"
  by (simp add: effect_def Let_def)

lemma panel_eqI:
  "events p = events q \<Longrightarrow> taskState p = taskState q \<Longrightarrow> lastEventRef p = lastEventRef q
   \<Longrightarrow> panel.more p = panel.more q \<Longrightarrow> p = q"
  by simp

lemma effect_more: "panel.more (effect p) = panel.more p"
  by (simp add: effect_def Let_def)

lemma effect_idem: "effect (effect p) = effect p"
  by (rule panel_eqI)
    (simp_all add: effect_events effect_quiet [OF effect_settled] effect_lastEventRef effect_more)

lemma after_render_eq: "after_render p = Some (effect p)"
proof (cases "effect_sets_state p")
  case True
  have "after_render (effect p) = Some (effect (effect p))"
    by (subst after_render.simps) (simp add: effect_settled)
  with True show ?thesis
    by (subst after_render.simps) (simp add: effect_idem)
next
  case False
  then show ?thesis by (subst after_render.simps) simp
qed

section \<open>The task invariant\<close>

lemma task_inv_iff:
  "task_inv st = (is_pending st \<or> is_running st \<or> is_completed st)"
  by (cases "running st"; cases "startT st"; cases "endT st")
     (simp_all add: task_inv_def phase_count_def is_pending_def is_running_def is_completed_def)

lemma task_inv_initial: "task_inv (initialTaskState k)"
  by (simp add: task_inv_iff initialTaskState_def is_pending_def)

lemma task_inv_startTask:
  "task_inv (ts k') \<Longrightarrow> task_inv (startTask k now ts k')"
  by (simp add: startTask_def task_inv_iff is_running_def)

lemma task_inv_resetTask:
  "task_inv (ts k') \<Longrightarrow> task_inv (resetTask k ts k')"
  by (simp add: resetTask_def task_inv_iff is_pending_def)

lemma task_inv_effect:
  assumes "task_inv (taskState p k)"
  shows "task_inv (taskState (effect p) k)"
proof (cases "events p = []")
  case True
  with assms show ?thesis by (simp add: effect_def)
next
  case False
  obtain task where tk: "task \<in> set TASKS" and k: "key task = k"
    using key_in_TASKS [of k] by blast
  show ?thesis
  proof (cases "task_fires (last (events p)) (taskState p) task")
    case True
    then have "startT (taskState p k) \<noteq> None"
      using k by (simp add: task_fires_def Let_def split: if_splits)
    with True effect_taskState [OF False tk] k show ?thesis
      by (simp add: task_inv_iff completed_by_def is_completed_def)
  next
    case nf: False
    with effect_taskState [OF False tk] k assms show ?thesis by simp
  qed
qed

lemma step_inv:
  assumes "panel_inv p"
  shows "\<exists>p'. step a p = Some p' \<and> panel_inv p'"
proof (cases a)
  case (Start k now)
  then show ?thesis using assms
    by (simp add: after_render_eq panel_inv_def task_inv_effect task_inv_startTask)
next
  case (Reset k)
  then show ?thesis using assms
    by (simp add: after_render_eq panel_inv_def task_inv_effect task_inv_resetTask)
next
  case (Append es)
  then show ?thesis using assms
    by (simp add: after_render_eq panel_inv_def task_inv_effect)
next
  case (Press_start k now)
  then show ?thesis using assms
    by (simp add: after_render_eq panel_inv_def task_inv_effect task_inv_startTask)
qed

lemma run_inv:
  "panel_inv p \<Longrightarrow> \<exists>p'. run as p = Some p' \<and> panel_inv p'"
proof (induction as arbitrary: p)
  case Nil
  then show ?case by simp
next
  case (Cons a as)
  from step_inv [OF Cons.prems, of a] obtain q where q: "step a p = Some q" "panel_inv q"
    by blast
  from Cons.IH [OF q(2)] q(1) show ?case by simp
qed

lemma mount_inv: "\<exists>p. mount evs = Some p \<and> panel_inv p"
  by (simp add: mount_def after_render_eq panel_inv_def task_inv_effect task_inv_initial)

text \<open>Unfolding the tracker on concrete inputs.\<close>

lemmas tracker_eval =
  session_def mount_def after_render_eq effect_def TASKS_def effect_task_def
  startTask_def resetTask_def initialTaskState_def Let_def

section \<open>Claims about the task tracker\<close>

text \<open>
  C2. Whatever the log the panel is mounted on and whatever sequence of start, reset,
  event-append and start-button actions follows, the panel settles in a state where
  every task is in exactly one of Pending, Running and Completed, and its end time is
  set exactly when it is Completed; a task whose running flag is set has no end time,
  and a Completed task has both a start and an end time.
\<close>

theorem task_state_invariant:
  "\<exists>p. session evs as = Some p \<and>
     (\<forall>k. phase_count (taskState p k) = 1 \<and>
          (endT (taskState p k) \<noteq> None) = is_completed (taskState p k) \<and>
          (running (taskState p k) \<longrightarrow> endT (taskState p k) = None) \<and>
          (is_completed (taskState p k) \<longrightarrow>
             startT (taskState p k) \<noteq> None \<and> endT (taskState p k) \<noteq> None))"
proof -
  obtain p0 where p0: "mount evs = Some p0" "panel_inv p0" using mount_inv by blast
  obtain p where p: "run as p0 = Some p" "panel_inv p" using run_inv [OF p0(2)] by blast
  have "session evs as = Some p" using p0(1) p(1) by (simp add: session_def)
  moreover have "phase_count (taskState p k) = 1 \<and>
          (endT (taskState p k) \<noteq> None) = is_completed (taskState p k) \<and>
          (running (taskState p k) \<longrightarrow> endT (taskState p k) = None) \<and>
          (is_completed (taskState p k) \<longrightarrow>
             startT (taskState p k) \<noteq> None \<and> endT (taskState p k) \<noteq> None)" for k
  proof -
    from p(2) have ti: "task_inv (taskState p k)" by (simp add: panel_inv_def)
    then have "running (taskState p k) \<longrightarrow> endT (taskState p k) = None"
      by (auto simp: task_inv_iff is_pending_def is_running_def is_completed_def)
    moreover have "is_completed (taskState p k) \<longrightarrow>
             startT (taskState p k) \<noteq> None \<and> endT (taskState p k) \<noteq> None"
      by (simp add: is_completed_def)
    moreover from ti have "phase_count (taskState p k) = 1"
      and "(endT (taskState p k) \<noteq> None) = is_completed (taskState p k)"
      by (simp_all add: task_inv_def)
    ultimately show ?thesis by blast
  qed
  ultimately show ?thesis by blast
qed

theorem task_state_invariant_witness:
  "map_option (\<lambda>p. taskState p Sound)
     (session [] [Start Sound 10, Append [\<lparr>type = ''sound_played'', t = 20\<rparr>]])
     = Some \<lparr>running = False, startT = Some 10, endT = Some 20\<rparr> \<and>
   (\<exists>p. session [] [Start Sound 10, Append [\<lparr>type = ''sound_played'', t = 20\<rparr>]] = Some p \<and>
     (\<forall>k. phase_count (taskState p k) = 1 \<and>
          (endT (taskState p k) \<noteq> None) = is_completed (taskState p k) \<and>
          (running (taskState p k) \<longrightarrow> endT (taskState p k) = None) \<and>
          (is_completed (taskState p k) \<longrightarrow>
             startT (taskState p k) \<noteq> None \<and> endT (taskState p k) \<noteq> None)))"
proof
  show "map_option (\<lambda>p. taskState p Sound)
     (session [] [Start Sound 10, Append [\<lparr>type = ''sound_played'', t = 20\<rparr>]])
     = Some \<lparr>running = False, startT = Some 10, endT = Some 20\<rparr>"
    by (simp add: tracker_eval)
  show "\<exists>p. session [] [Start Sound 10, Append [\<lparr>type = ''sound_played'', t = 20\<rparr>]] = Some p \<and>
     (\<forall>k. phase_count (taskState p k) = 1 \<and>
          (endT (taskState p k) \<noteq> None) = is_completed (taskState p k) \<and>
          (running (taskState p k) \<longrightarrow> endT (taskState p k) = None) \<and>
          (is_completed (taskState p k) \<longrightarrow>
             startT (taskState p k) \<noteq> None \<and> endT (taskState p k) \<noteq> None))"
    by (rule task_state_invariant)
qed

text \<open>
  C3, as stated, fails for an event that is not the last one when the panel renders:
  the effect reads \<open>events[events.length - 1]\<close> only. With the Sound task running
  and \<open>sound_played\<close> followed by \<open>crop_change\<close> in one render, the task stays
  Running. With the Voice task running and the three events of a recognised voice
  command in one render, the task is completed with the timestamp of the last event,
  not of the first \<open>post_scheduled\<close>.
\<close>

theorem batched_success_event_is_not_inspected:
  "is_running (taskState sound_running Sound) \<and>
   map_option (\<lambda>p. taskState p Sound)
     (step (Append [sound_played_20, crop_change_21]) sound_running)
     = Some \<lparr>running = True, startT = Some 10, endT = None\<rparr> \<and>
   is_running (taskState voice_running Voice) \<and>
   map_option (\<lambda>p. taskState p Voice) (step (Append voice_batch) voice_running)
     = Some \<lparr>running = False, startT = Some 10, endT = Some 21\<rparr>"
  by (simp add: sound_running_def voice_running_def sound_played_20_def crop_change_21_def
      voice_batch_def is_running_def tracker_eval)

text \<open>
  C3, amended. When the panel is rendered with new events appended to the log (one or
  several), every task of \<open>TASKS\<close> that is Running and lists the type of the last
  appended event among its success events becomes Completed, keeping its start time
  and taking that event's timestamp as end time; every task that is Pending or
  Completed is left as it was, and so is a Running task that does not list that type.
  The panel settles (the render cycle ends).
\<close>

theorem append_completes_running:
  assumes "es \<noteq> []"
  shows "\<exists>p'. step (Append es) p = Some p' \<and>
     (\<forall>task \<in> set TASKS.
        is_running (taskState p (key task)) \<and> type (last es) \<in> set (successEvents task) \<longrightarrow>
          is_completed (taskState p' (key task)) \<and>
          taskState p' (key task) =
            \<lparr>running = False, startT = startT (taskState p (key task)),
             endT = Some (t (last es))\<rparr>) \<and>
     (\<forall>task \<in> set TASKS.
        is_running (taskState p (key task)) \<and> type (last es) \<notin> set (successEvents task) \<longrightarrow>
          taskState p' (key task) = taskState p (key task)) \<and>
     (\<forall>k. is_pending (taskState p k) \<or> is_completed (taskState p k) \<longrightarrow>
          taskState p' k = taskState p k)"
proof -
  let ?q = "p\<lparr>events := events p @ es\<rparr>"
  let ?e = "last es"
  have ne: "events ?q \<noteq> []" and lst: "last (events ?q) = ?e"
    and ts: "taskState ?q = taskState p" using assms by simp_all
  have "step (Append es) p = Some (effect ?q)" using assms by (simp add: after_render_eq)
  moreover have "is_completed (taskState (effect ?q) (key task)) \<and>
          taskState (effect ?q) (key task) =
            \<lparr>running = False, startT = startT (taskState p (key task)), endT = Some (t ?e)\<rparr>"
    if tk: "task \<in> set TASKS" and r: "is_running (taskState p (key task))"
      and m: "type ?e \<in> set (successEvents task)" for task
  proof -
    from r m have "task_fires ?e (taskState p) task"
      by (simp add: task_fires_def is_running_def)
    with effect_taskState [OF ne tk] lst ts
    have eq: "taskState (effect ?q) (key task) = completed_by ?e (taskState p (key task))"
      by simp
    with r show ?thesis by (simp add: completed_by_def is_completed_def is_running_def)
  qed
  moreover have "taskState (effect ?q) (key task) = taskState p (key task)"
    if tk: "task \<in> set TASKS" and m: "type ?e \<notin> set (successEvents task)" for task
  proof -
    from m have "\<not> task_fires ?e (taskState p) task"
      by (simp add: task_fires_def Let_def)
    with effect_taskState [OF ne tk] lst ts show ?thesis by simp
  qed
  moreover have "taskState (effect ?q) k = taskState p k"
    if "is_pending (taskState p k) \<or> is_completed (taskState p k)" for k
  proof -
    obtain task where tk: "task \<in> set TASKS" and k: "key task = k"
      using key_in_TASKS [of k] by blast
    from that k have "\<not> task_fires ?e (taskState p) task"
      by (auto simp: task_fires_def is_pending_def is_completed_def)
    with effect_taskState [OF ne tk] lst ts k show ?thesis by simp
  qed
  ultimately show ?thesis by blast
qed

theorem append_completes_running_witness:
  "\<exists>p'. step (Append [sound_played_20]) sound_running = Some p' \<and>
     is_running (taskState sound_running Sound) \<and>
     is_pending (taskState sound_running Voice) \<and>
     taskState p' Sound = \<lparr>running = False, startT = Some 10, endT = Some 20\<rparr> \<and>
     taskState p' Voice = \<lparr>running = False, startT = None, endT = None\<rparr>"
proof -
  let ?c = "\<lparr>key = Sound, successEvents = [''sound_played'']\<rparr>"
  have c: "?c \<in> set TASKS" by (simp add: TASKS_def)
  have r: "is_running (taskState sound_running Sound)"
    by (simp add: sound_running_def startTask_def is_running_def)
  have pe: "is_pending (taskState sound_running Voice)"
    by (simp add: sound_running_def startTask_def initialTaskState_def is_pending_def)
  have m: "type (last [sound_played_20]) \<in> set (successEvents ?c)"
    by (simp add: sound_played_20_def)
  have ne: "[sound_played_20] \<noteq> []" by simp
  from append_completes_running [OF ne, of sound_running]
  obtain p' where s: "step (Append [sound_played_20]) sound_running = Some p'"
    and a: "\<forall>task \<in> set TASKS.
        is_running (taskState sound_running (key task)) \<and>
        type (last [sound_played_20]) \<in> set (successEvents task) \<longrightarrow>
          is_completed (taskState p' (key task)) \<and>
          taskState p' (key task) =
            \<lparr>running = False, startT = startT (taskState sound_running (key task)),
             endT = Some (t (last [sound_played_20]))\<rparr>"
    and b: "\<forall>k. is_pending (taskState sound_running k) \<or> is_completed (taskState sound_running k) \<longrightarrow>
          taskState p' k = taskState sound_running k"
    by blast
  from a c r m have "taskState p' Sound =
      \<lparr>running = False, startT = startT (taskState sound_running Sound),
       endT = Some (t (last [sound_played_20]))\<rparr>"
    by fastforce
  then have 1: "taskState p' Sound = \<lparr>running = False, startT = Some 10, endT = Some 20\<rparr>"
    by (simp add: sound_running_def startTask_def sound_played_20_def)
  from b pe have "taskState p' Voice = taskState sound_running Voice" by blast
  then have 2: "taskState p' Voice = \<lparr>running = False, startT = None, endT = None\<rparr>"
    by (simp add: sound_running_def startTask_def initialTaskState_def)
  from s r pe 1 2 show ?thesis by blast
qed

text \<open>
  C8. While a task is Running its start button is disabled, and the button is the
  only place \<open>startTask\<close> is called from; so starting a Running task is a no-op:
  the panel is left as it is, and with it the task's running flag, start time and end
  time.
\<close>

theorem press_start_while_running:
  assumes "is_running (taskState p k)"
  shows "\<exists>p'. step (Press_start k now) p = Some p' \<and> p' = p \<and>
    running (taskState p' k) = running (taskState p k) \<and>
    startT (taskState p' k) = startT (taskState p k) \<and>
    endT (taskState p' k) = endT (taskState p k)"
  using assms by (simp add: is_running_def)

theorem press_start_while_running_witness:
  "is_running (taskState sound_running Sound) \<and>
   step (Press_start Sound 15) sound_running = Some sound_running \<and>
   map_option (\<lambda>p. taskState p Sound) (step (Press_start Sound 15) sound_running)
     = Some \<lparr>running = True, startT = Some 10, endT = None\<rparr>"
proof -
  have r: "is_running (taskState sound_running Sound)"
    by (simp add: sound_running_def startTask_def is_running_def)
  from press_start_while_running [OF r, of 15]
  have s: "step (Press_start Sound 15) sound_running = Some sound_running" by simp
  moreover have "taskState sound_running Sound = \<lparr>running = True, startT = Some 10, endT = None\<rparr>"
    by (simp add: sound_running_def startTask_def)
  ultimately show ?thesis using r by simp
qed

text \<open>
  C10 does not hold of the code. The effect also runs after the render that
  \<open>startTask\<close> causes (\<open>taskState\<close> is one of its dependencies) and reads the
  last event of the log, whenever that was appended. With \<open>sound_played\<close> logged at
  time 5 and the Sound task started at time 10, the task is Completed at once, with an
  end time before its start time.
\<close>

theorem stale_success_event_completes_started_task:
  "map_option (\<lambda>p. taskState p Sound)
     (session [\<lparr>type = ''sound_played'', t = 5\<rparr>] [Start Sound 10])
   = Some \<lparr>running = False, startT = Some 10, endT = Some 5\<rparr>"
  by (simp add: tracker_eval)

section \<open>Further properties of the task tracker\<close>

text \<open>
  The render cycle always ends: after any change, the effect runs, and once more if it
  updated the state; the second run updates nothing. The panel then is in the state
  one run of the effect produces.
\<close>

theorem render_cycle_settles:
  "\<exists>p'. after_render p = Some p' \<and> p' = effect p \<and> effect_sets_state p' = False"
  by (simp add: after_render_eq effect_settled)

theorem render_cycle_settles_witness:
  "\<exists>p'. after_render (sound_running\<lparr>events := [sound_played_20]\<rparr>) = Some p' \<and>
     taskState p' Sound = \<lparr>running = False, startT = Some 10, endT = Some 20\<rparr> \<and>
     effect_sets_state p' = False"
proof -
  from render_cycle_settles [of "sound_running\<lparr>events := [sound_played_20]\<rparr>"]
  obtain p' where a: "after_render (sound_running\<lparr>events := [sound_played_20]\<rparr>) = Some p'"
    and b: "p' = effect (sound_running\<lparr>events := [sound_played_20]\<rparr>)"
    and c: "effect_sets_state p' = False"
    by blast
  from b have "taskState p' Sound = \<lparr>running = False, startT = Some 10, endT = Some 20\<rparr>"
    by (simp add: sound_running_def sound_played_20_def tracker_eval)
  with a c show ?thesis by blast
qed

text \<open>
  The label of a row names the state of its task, as long as the end time is not the
  timestamp 0: \<open>Completada\<close> for Completed, \<open>En curso\<close> for Running,
  \<open>Pendiente\<close> for Pending. (A task completed by an event with timestamp 0 is
  labelled \<open>Pendiente\<close>.)
\<close>

theorem status_names_the_state:
  assumes "task_inv st" and "endT st \<noteq> Some 0"
  shows "(status st = ''Completada'') = is_completed st \<and>
    (status st = ''En curso'') = is_running st \<and>
    (status st = ''Pendiente'') = is_pending st"
proof -
  from assms(1) have "is_pending st \<or> is_running st \<or> is_completed st"
    by (simp add: task_inv_iff)
  then show ?thesis
  proof (elim disjE)
    assume "is_pending st"
    then show ?thesis
      by (simp add: status_def is_pending_def is_running_def is_completed_def)
  next
    assume "is_running st"
    then show ?thesis
      by (simp add: status_def is_pending_def is_running_def is_completed_def)
  next
    assume c: "is_completed st"
    then obtain e where e: "endT st = Some e" by (auto simp: is_completed_def)
    with assms(2) have "e \<noteq> 0" by simp
    with c e show ?thesis
      by (simp add: status_def is_pending_def is_running_def is_completed_def)
  qed
qed

theorem status_names_the_state_witness:
  "task_inv \<lparr>running = False, startT = Some 10, endT = Some 20\<rparr> \<and>
   status \<lparr>running = False, startT = Some 10, endT = Some 20\<rparr> = ''Completada'' \<and>
   is_completed \<lparr>running = False, startT = Some 10, endT = Some 20\<rparr>"
proof -
  have i: "task_inv \<lparr>running = False, startT = Some 10, endT = Some 20\<rparr>"
    by (simp add: task_inv_iff is_completed_def)
  have z: "endT \<lparr>running = False, startT = Some 10, endT = Some 20\<rparr> \<noteq> Some 0" by simp
  have s: "status \<lparr>running = False, startT = Some 10, endT = Some 20\<rparr> = ''Completada''"
    by (simp add: status_def)
  from status_names_the_state [OF i z] s i show ?thesis by simp
qed

lemma status_zero_end_time:
  "status \<lparr>running = False, startT = Some 0, endT = Some 0\<rparr> = ''Pendiente''"
  by (simp add: status_def)

end
